theory Spec2Isabelle
  imports Main
begin

section \<open>The grid game of \<open>src/index.js\<close>\<close>

text \<open>
  The module keeps its state in module-level variables (\<open>current_state\<close>,
  \<open>inErrorState\<close>, \<open>myInterpreter\<close>, \<open>runnerPid\<close>) and in the page (the run button,
  the grid's class list, the two images, the output area, the browser's alert dialog and its
  timers). The embedding gathers all of them in one record and passes it through every
  function, in the order of the statements of the source.
\<close>

subsection \<open>Constants\<close>

record pos =
  pos_x :: int
  pos_y :: int

definition START_STATE :: pos where
  "START_STATE = \<lparr>pos_x = 0, pos_y = 0\<rparr>"

definition GOAL_STATE :: pos where
  "GOAL_STATE = \<lparr>pos_x = 0, pos_y = 2\<rparr>"

definition ROWS :: int where
  "ROWS = 3"

definition COLS :: int where
  "COLS = 3"

subsection \<open>Programs, evaluators and timers\<close>

text \<open>
  Modelled from the spec: the sandboxed evaluator is the external package
  \<open>js-interpreter\<close>, and the program text comes from the block code generator; neither is
  part of the sources. The host sees a program only through the calls it makes to the three
  functions that \<open>initApi\<close> exposes, none of which returns a value to it, so a terminating
  program is the list of its host calls. \<open>Alert None\<close> is \<open>alert()\<close> with no argument.
  An evaluator holds the calls it has still to make and the flag \<open>paused\<close>, which an
  asynchronous host call sets and its continuation clears.
\<close>

datatype call = MoveForward | Alert "string option" | WaitForSeconds nat

record interp =
  todo :: "call list"
  paused :: bool

text \<open>
  The three kinds of function handed to \<open>setTimeout\<close>: the anonymous function of
  \<open>runCode\<close> that begins execution (it closes over \<open>latestCode\<close>), \<open>runner\<close>, and the
  continuation of \<open>waitForSeconds\<close> for the evaluator that made the call.
\<close>

datatype callback = StartRun "call list" | Runner | WaitDone nat

datatype image = BluedogImage | BusImage

record state =
  current_state :: pos
  inErrorState :: bool
  myInterpreter :: "nat option"
  runnerPid :: nat
  runButton_disabled :: bool
  grid_error :: bool
  bluedog_cell :: "pos option"
  bus_cell :: "pos option"
  outputArea :: string
  alerts :: "string list"
  interps :: "interp list"
  timers :: "(nat \<times> nat \<times> callback) list"
  next_timer :: nat

text \<open>
  \<open>myInterpreter\<close> is a reference: an index into \<open>interps\<close>, the evaluators constructed so
  far. \<open>timers\<close> are the pending timeouts (identifier, delay in milliseconds, function);
  \<open>setTimeout\<close> returns a fresh positive identifier, \<open>clearTimeout\<close> of an identifier that
  is not pending does nothing. \<open>alerts\<close> are the messages shown by the browser's \<open>alert\<close>.
\<close>

definition setTimeout :: "callback \<Rightarrow> nat \<Rightarrow> state \<Rightarrow> nat \<times> state" where
  "setTimeout cb ms s =
     (next_timer s,
      s\<lparr>timers := timers s @ [(next_timer s, ms, cb)], next_timer := Suc (next_timer s)\<rparr>)"

definition clearTimeout :: "nat \<Rightarrow> state \<Rightarrow> state" where
  "clearTimeout t s = s\<lparr>timers := filter (\<lambda>e. fst e \<noteq> t) (timers s)\<rparr>"

definition alert :: "string \<Rightarrow> state \<Rightarrow> state" where
  "alert msg s = s\<lparr>alerts := alerts s @ [msg]\<rparr>"

subsection \<open>The functions exposed to the program (\<open>initApi\<close>)\<close>

text \<open>
  \<open>moveImage\<close> places an image over the cell \<open>"cell" + state.x + "_" + state.y\<close>; the
  pixel arithmetic is left out and the cell is recorded. \<open>drawGrid\<close> creates the cells
  \<open>cell i_j\<close> for \<open>0 \<le> i < ROWS\<close> and \<open>0 \<le> j < COLS\<close> (\<open>cell_exists\<close>). For any other
  position the look-up of the source returns \<open>null\<close> and the next statement throws; this
  is not modelled, the cell is recorded all the same. Every position of a state reached from
  the loaded page is a cell (\<open>cell_exists_reachable\<close>), and the properties of a run
  from an arbitrary state assume that it starts on a cell.
\<close>

definition cell_exists :: "pos \<Rightarrow> bool" where
  "cell_exists p \<longleftrightarrow> 0 \<le> pos_x p \<and> pos_x p < ROWS \<and> 0 \<le> pos_y p \<and> pos_y p < COLS"

definition moveImage :: "pos \<Rightarrow> image \<Rightarrow> state \<Rightarrow> state" where
  "moveImage st img s =
     (case img of
        BluedogImage \<Rightarrow> s\<lparr>bluedog_cell := Some st\<rparr>
      | BusImage \<Rightarrow> s\<lparr>bus_cell := Some st\<rparr>)"

definition moveForward :: "state \<Rightarrow> state" where
  "moveForward s =
     (if inErrorState s then s
      else if pos_y (current_state s) < COLS - 1 then
        (let s1 = s\<lparr>current_state := (current_state s)\<lparr>pos_y := pos_y (current_state s) + 1\<rparr>\<rparr>
         in moveImage (current_state s1) BluedogImage s1)
      else
        alert ''uh oh! You have gone too far! Please try again.''
          (s\<lparr>inErrorState := True, grid_error := True\<rparr>))"

definition wrapperAlert :: "string option \<Rightarrow> state \<Rightarrow> state" where
  "wrapperAlert text s =
     s\<lparr>outputArea := outputArea s @ [CHR 0x0A] @ (case text of None \<Rightarrow> [] | Some t \<Rightarrow> t)\<rparr>"

definition waitForSeconds :: "nat \<Rightarrow> nat \<Rightarrow> state \<Rightarrow> state" where
  "waitForSeconds i timeInSeconds s = snd (setTimeout (WaitDone i) (timeInSeconds * 1000) s)"

subsection \<open>The evaluator\<close>

text \<open>
  \<open>Interpreter.run\<close> steps the program until it ends or an asynchronous call pauses it,
  and returns the flag \<open>paused\<close>. A paused evaluator does not step.
\<close>

fun Interpreter_steps :: "nat \<Rightarrow> call list \<Rightarrow> state \<Rightarrow> (call list \<times> bool) \<times> state" where
  "Interpreter_steps i [] s = (([], False), s)"
| "Interpreter_steps i (MoveForward # cs) s = Interpreter_steps i cs (moveForward s)"
| "Interpreter_steps i (Alert text # cs) s = Interpreter_steps i cs (wrapperAlert text s)"
| "Interpreter_steps i (WaitForSeconds n # cs) s = ((cs, True), waitForSeconds i n s)"

definition Interpreter_run :: "nat \<Rightarrow> state \<Rightarrow> bool \<times> state" where
  "Interpreter_run i s =
     (if i < length (interps s) then
        (if paused (interps s ! i) then (True, s)
         else
           (case Interpreter_steps i (todo (interps s ! i)) s of
              ((rest, p), s') \<Rightarrow>
                (p, s'\<lparr>interps := (interps s')[i := \<lparr>todo = rest, paused = p\<rparr>]\<rparr>)))
      else (False, s))"

definition new_Interpreter :: "call list \<Rightarrow> state \<Rightarrow> nat \<times> state" where
  "new_Interpreter code s =
     (length (interps s), s\<lparr>interps := interps s @ [\<lparr>todo = code, paused = False\<rparr>]\<rparr>)"

definition resume :: "nat \<Rightarrow> state \<Rightarrow> state" where
  "resume i s =
     (if i < length (interps s)
      then s\<lparr>interps := (interps s)[i := (interps s ! i)\<lparr>paused := False\<rparr>]\<rparr>
      else s)"

subsection \<open>Reset, goal check and the execution loop\<close>

definition resetStepUi :: "state \<Rightarrow> state" where
  "resetStepUi s = (clearTimeout (runnerPid s) s)\<lparr>runButton_disabled := False, myInterpreter := None\<rparr>"

definition resetState :: "state \<Rightarrow> state" where
  "resetState s =
     (let s1 = s\<lparr>current_state := START_STATE\<rparr>;
          s2 = moveImage START_STATE BluedogImage s1;
          s3 = moveImage GOAL_STATE BusImage s2;
          s4 = resetStepUi s3
      in s4\<lparr>inErrorState := False, grid_error := False\<rparr>)"

definition checkGoalReached :: "state \<Rightarrow> state" where
  "checkGoalReached s =
     (if inErrorState s then s
      else if pos_x (current_state s) = pos_x GOAL_STATE \<and> pos_y (current_state s) = pos_y GOAL_STATE
      then alert ''You have reached the goal!'' s
      else alert ''You have not reached the goal. Please try again.'' s)"

definition runner :: "state \<Rightarrow> state" where
  "runner s =
     (case myInterpreter s of
        None \<Rightarrow> s
      | Some i \<Rightarrow>
          (case Interpreter_run i s of
             (hasMore, s') \<Rightarrow>
               if hasMore
               then (case setTimeout Runner 10 s' of (pid, s'') \<Rightarrow> s''\<lparr>runnerPid := pid\<rparr>)
               else checkGoalReached s'))"

text \<open>The function that \<open>runCode\<close> hands to \<open>setTimeout\<close>.\<close>

definition begin_execution :: "call list \<Rightarrow> state \<Rightarrow> state" where
  "begin_execution latestCode s =
     (case new_Interpreter latestCode s of
        (i, s') \<Rightarrow> runner (s'\<lparr>myInterpreter := Some i\<rparr>))"

text \<open>
  \<open>runCode\<close>; its first argument is what \<open>workspaceToCode\<close> returns for the workspace at the
  time of the call.
\<close>

definition runCode :: "call list \<Rightarrow> state \<Rightarrow> state" where
  "runCode workspaceToCode s =
     (let s1 = resetState s in
      case myInterpreter s1 of
        None \<Rightarrow>
          (let s2 = resetStepUi s1;
               latestCode = workspaceToCode;
               s3 = s2\<lparr>runButton_disabled := True\<rparr>
           in snd (setTimeout (StartRun latestCode) 1 s3))
      | Some i \<Rightarrow> s1)"

subsection \<open>The page: load, clicks and timers\<close>

text \<open>
  The module's top level: the variables get their initial values and \<open>resetState\<close> is
  called once. A click reaches a button's listener unless the button is disabled; a pending
  timeout is removed when it fires, then its function runs. \<open>ClickRun code\<close> carries the
  code of the workspace at the time of the click. Any pending timeout may be the next to
  fire: the browser orders them by their due times, so every run of the page is a run of
  \<open>exec\<close>, and what holds for all event lists holds for the page.
\<close>

definition boot_state :: state where
  "boot_state =
     \<lparr>current_state = START_STATE, inErrorState = False, myInterpreter = None, runnerPid = 0,
      runButton_disabled = False, grid_error = False, bluedog_cell = None, bus_cell = None,
      outputArea = [], alerts = [], interps = [], timers = [], next_timer = 1\<rparr>"

definition init_state :: state where
  "init_state = resetState boot_state"

datatype event = ClickRun "call list" | ClickReset | Fire nat

fun call_back :: "callback \<Rightarrow> state \<Rightarrow> state" where
  "call_back (StartRun latestCode) s = begin_execution latestCode s"
| "call_back Runner s = runner s"
| "call_back (WaitDone i) s = resume i s"

definition fire :: "nat \<Rightarrow> state \<Rightarrow> state" where
  "fire t s =
     (case find (\<lambda>e. fst e = t) (timers s) of
        None \<Rightarrow> s
      | Some e \<Rightarrow> call_back (snd (snd e)) (clearTimeout t s))"

fun step :: "event \<Rightarrow> state \<Rightarrow> state" where
  "step (ClickRun code) s = (if runButton_disabled s then s else runCode code s)"
| "step ClickReset s = resetState s"
| "step (Fire t) s = fire t s"

fun exec :: "event list \<Rightarrow> state \<Rightarrow> state" where
  "exec [] s = s"
| "exec (e # es) s = exec es (step e s)"

subsection \<open>Predicates of the properties\<close>




text \<open>The cells that \<open>drawGrid\<close> creates have a column index from 0 to \<open>COLS - 1\<close>.\<close>

definition in_grid :: "state \<Rightarrow> bool" where
  "in_grid s \<longleftrightarrow> 0 \<le> pos_y (current_state s) \<and> pos_y (current_state s) \<le> COLS - 1"

text \<open>
  A position of the grid's first row: \<open>x\<close> is that of \<open>START_STATE\<close> and \<open>y\<close> is a
  column index.
\<close>

definition on_grid :: "pos \<Rightarrow> bool" where
  "on_grid p \<longleftrightarrow> pos_x p = pos_x START_STATE \<and> 0 \<le> pos_y p \<and> pos_y p \<le> COLS - 1"

text \<open>
  Timer identifiers are handed out in increasing order: every pending timeout, and the
  identifier kept in \<open>runnerPid\<close>, is older than the next one.
\<close>

definition fresh_ids :: "state \<Rightarrow> bool" where
  "fresh_ids s \<longleftrightarrow>
     runnerPid s < next_timer s \<and> list_all (\<lambda>e. fst e < next_timer s) (timers s)"

text \<open>
  The position of a run that is to end at \<open>y = Y\<close> or beyond the edge, with the calls
  \<open>cs\<close> still to make: before an out-of-bounds move every remaining \<open>moveForward\<close> is one
  step short of \<open>Y\<close>; after it the position is the last column and \<open>Y\<close> lies beyond.
\<close>

definition on_course :: "int \<Rightarrow> state \<Rightarrow> call list \<Rightarrow> bool" where
  "on_course Y s cs \<longleftrightarrow>
     cell_exists (current_state s) \<and>
     (if inErrorState s then pos_y (current_state s) = COLS - 1 \<and> COLS - 1 < Y
      else pos_y (current_state s) + int (count_list cs MoveForward) = Y)"


section \<open>Properties\<close>

subsection \<open>Auxiliary facts\<close>

lemmas host_defs =
  setTimeout_def clearTimeout_def alert_def moveImage_def moveForward_def wrapperAlert_def
  waitForSeconds_def Interpreter_run_def new_Interpreter_def resume_def resetStepUi_def
  resetState_def checkGoalReached_def runner_def begin_execution_def runCode_def
  boot_state_def init_state_def fire_def START_STATE_def GOAL_STATE_def COLS_def ROWS_def

lemma moveForward_interps [simp]: "interps (moveForward s) = interps s"
  by (simp add: moveForward_def moveImage_def alert_def Let_def)

lemma wrapperAlert_interps [simp]: "interps (wrapperAlert text s) = interps s"
  by (simp add: wrapperAlert_def)

lemma waitForSeconds_interps [simp]: "interps (waitForSeconds i n s) = interps s"
  by (simp add: waitForSeconds_def setTimeout_def)

lemma steps_interps: "interps (snd (Interpreter_steps i p s)) = interps s"
  by (induction i p s rule: Interpreter_steps.induct) simp_all

lemma moveForward_error: "inErrorState s \<Longrightarrow> moveForward s = s"
  by (simp add: moveForward_def)

lemma wrapperAlert_host [simp]:
  "current_state (wrapperAlert text s) = current_state s"
  "inErrorState (wrapperAlert text s) = inErrorState s"
  "alerts (wrapperAlert text s) = alerts s"
  by (simp_all add: wrapperAlert_def)

lemma checkGoalReached_host [simp]:
  "current_state (checkGoalReached s) = current_state s"
  "inErrorState (checkGoalReached s) = inErrorState s"
  by (simp_all add: checkGoalReached_def alert_def)

subsection \<open>C2: the scenario of the goal\<close>

theorem three_moves_overshoot_counterexample:
  "inErrorState (exec [ClickRun [MoveForward, MoveForward, MoveForward], Fire 1] init_state) \<and>
   alerts (exec [ClickRun [MoveForward, MoveForward, MoveForward], Fire 1] init_state) =
     [''uh oh! You have gone too far! Please try again.'']"
  by (simp add: host_defs)

text \<open>
  C2 (amended). From the start state \<open>(0,0)\<close> with the goal \<open>(0,2)\<close>, a run of the program
  of exactly two \<open>moveForward\<close> calls ends at \<open>(0,2)\<close> with the error flag clear and the
  completion check showing the goal message. With three calls the position is \<open>(0,2)\<close>
  too, but the third call sets the error flag and shows the overshoot message, and the
  completion check shows nothing.
\<close>

theorem two_moves_reach_goal:
  "current_state init_state = START_STATE \<and>
   current_state (exec [ClickRun [MoveForward, MoveForward], Fire 1] init_state) = GOAL_STATE \<and>
   \<not> inErrorState (exec [ClickRun [MoveForward, MoveForward], Fire 1] init_state) \<and>
   alerts (exec [ClickRun [MoveForward, MoveForward], Fire 1] init_state) =
     [''You have reached the goal!''] \<and>
   current_state (exec [ClickRun [MoveForward, MoveForward, MoveForward], Fire 1] init_state) =
     GOAL_STATE \<and>
   inErrorState (exec [ClickRun [MoveForward, MoveForward, MoveForward], Fire 1] init_state) \<and>
   alerts (exec [ClickRun [MoveForward, MoveForward, MoveForward], Fire 1] init_state) =
     [''uh oh! You have gone too far! Please try again.'']"
  by (simp add: host_defs)

subsection \<open>C3: after an out-of-bounds move\<close>

theorem alert_after_overshoot_counterexample:
  "inErrorState (moveForward (moveForward (moveForward init_state))) \<and>
   outputArea (wrapperAlert (Some ''hi'') (moveForward (moveForward (moveForward init_state)))) \<noteq>
     outputArea (moveForward (moveForward (moveForward init_state))) \<and>
   outputArea
     (exec [ClickRun [MoveForward, MoveForward, MoveForward, Alert (Some ''hi'')], Fire 1]
        init_state) = CHR 0x0A # ''hi''"
  by (simp add: host_defs)

lemma moveForward_funpow_error: "inErrorState s \<Longrightarrow> (moveForward ^^ n) s = s"
  by (induction n) (simp_all add: moveForward_error)

text \<open>
  C3 (amended). A \<open>moveForward\<close> called with the error flag clear and \<open>y\<close> at \<open>COLS - 1\<close>
  sets the error flag and shows a message, leaving the position as it is. Every further
  \<open>moveForward\<close> leaves the whole state unchanged. An \<open>alert\<close> of the program is not
  suppressed: it appends a line break and its text to the output area, and leaves the
  position, the error flag and the messages shown unchanged. \<open>resetState\<close> clears the flag.
\<close>

theorem overshoot_then_noop:
  assumes "\<not> inErrorState s" and "COLS - 1 \<le> pos_y (current_state s)"
  shows "inErrorState (moveForward s) \<and>
    alerts (moveForward s) = alerts s @ [''uh oh! You have gone too far! Please try again.''] \<and>
    current_state (moveForward s) = current_state s \<and>
    (moveForward ^^ n) (moveForward s) = moveForward s \<and>
    current_state (wrapperAlert t (moveForward s)) = current_state s \<and>
    inErrorState (wrapperAlert t (moveForward s)) \<and>
    alerts (wrapperAlert t (moveForward s)) = alerts (moveForward s) \<and>
    outputArea (wrapperAlert t (moveForward s)) =
      outputArea s @ [CHR 0x0A] @ (case t of None \<Rightarrow> [] | Some txt \<Rightarrow> txt) \<and>
    \<not> inErrorState (resetState (moveForward s))"
proof -
  from assms have e: "inErrorState (moveForward s)"
    by (simp add: moveForward_def alert_def)
  from assms have
    "alerts (moveForward s) = alerts s @ [''uh oh! You have gone too far! Please try again.'']"
    "current_state (moveForward s) = current_state s" "outputArea (moveForward s) = outputArea s"
    by (simp_all add: moveForward_def alert_def)
  moreover have "\<not> inErrorState (resetState (moveForward s))"
    by (simp add: resetState_def resetStepUi_def clearTimeout_def moveImage_def)
  ultimately show ?thesis
    using e moveForward_funpow_error [OF e, of n] by (simp add: wrapperAlert_def)
qed

theorem overshoot_then_noop_witness:
  "\<not> inErrorState (moveForward (moveForward init_state)) \<and>
   COLS - 1 \<le> pos_y (current_state (moveForward (moveForward init_state))) \<and>
   inErrorState (moveForward (moveForward (moveForward init_state))) \<and>
   (moveForward ^^ 2) (moveForward (moveForward (moveForward init_state))) =
     moveForward (moveForward (moveForward init_state)) \<and>
   outputArea (wrapperAlert (Some ''hi'') (moveForward (moveForward (moveForward init_state)))) =
     outputArea (moveForward (moveForward init_state)) @ CHR 0x0A # ''hi''"
proof -
  let ?s = "moveForward (moveForward init_state)"
  have a: "\<not> inErrorState ?s" by (simp add: host_defs)
  have b: "COLS - 1 \<le> pos_y (current_state ?s)" by (simp add: host_defs)
  from overshoot_then_noop [OF a b, of 2 "Some ''hi''"] a b show ?thesis
    by simp
qed

subsection \<open>C4: a run request while a run is active\<close>

lemma resetState_fields [simp]:
  "current_state (resetState s) = START_STATE"
  "inErrorState (resetState s) = False"
  "myInterpreter (resetState s) = None"
  "runButton_disabled (resetState s) = False"
  "timers (resetState s) = filter (\<lambda>e. fst e \<noteq> runnerPid s) (timers s)"
  "next_timer (resetState s) = next_timer s"
  "runnerPid (resetState s) = runnerPid s"
  "interps (resetState s) = interps s"
  by (simp_all add: resetState_def resetStepUi_def clearTimeout_def moveImage_def)

lemma runCode_eq:
  "runCode p s =
     (resetState s)\<lparr>runButton_disabled := True,
       timers := filter (\<lambda>e. fst e \<noteq> runnerPid s) (timers s) @ [(next_timer s, 1, StartRun p)],
       next_timer := Suc (next_timer s)\<rparr>"
  by (simp add: runCode_def resetStepUi_def clearTimeout_def setTimeout_def Let_def)

text \<open>
  C4. A run is requested and reset before its start timeout has fired; the start fires all
  the same, so that a run is active (the handle refers to evaluator 0, which has moved to
  \<open>(0,1)\<close> and waits) while the run button is enabled. The next run request is not ignored:
  \<open>runCode\<close> calls \<open>resetState\<close> before it looks at the handle, so the handle is gone when
  it is tested. The evaluator is dropped, its poll is cleared, the position is back at
  \<open>(0,0)\<close> and the start of a new run is scheduled.
\<close>

theorem run_request_discards_active_run:
  "myInterpreter
     (exec [ClickRun [MoveForward, WaitForSeconds 1, MoveForward], ClickReset, Fire 1] init_state) =
     Some 0 \<and>
   interps
     (exec [ClickRun [MoveForward, WaitForSeconds 1, MoveForward], ClickReset, Fire 1] init_state) =
     [\<lparr>todo = [MoveForward], paused = True\<rparr>] \<and>
   current_state
     (exec [ClickRun [MoveForward, WaitForSeconds 1, MoveForward], ClickReset, Fire 1] init_state) =
     \<lparr>pos_x = 0, pos_y = 1\<rparr> \<and>
   timers
     (exec [ClickRun [MoveForward, WaitForSeconds 1, MoveForward], ClickReset, Fire 1] init_state) =
     [(2, 1000, WaitDone 0), (3, 10, Runner)] \<and>
   myInterpreter
     (exec [ClickRun [MoveForward, WaitForSeconds 1, MoveForward], ClickReset, Fire 1,
            ClickRun [MoveForward]] init_state) = None \<and>
   current_state
     (exec [ClickRun [MoveForward, WaitForSeconds 1, MoveForward], ClickReset, Fire 1,
            ClickRun [MoveForward]] init_state) = \<lparr>pos_x = 0, pos_y = 0\<rparr> \<and>
   timers
     (exec [ClickRun [MoveForward, WaitForSeconds 1, MoveForward], ClickReset, Fire 1,
            ClickRun [MoveForward]] init_state) =
     [(2, 1000, WaitDone 0), (4, 1, StartRun [MoveForward])]"
  by (simp add: host_defs)

subsection \<open>C5: completion\<close>

lemma moveForward_frame [simp]:
  "myInterpreter (moveForward s) = myInterpreter s"
  "runButton_disabled (moveForward s) = runButton_disabled s"
  "timers (moveForward s) = timers s"
  by (simp_all add: moveForward_def moveImage_def alert_def Let_def)

lemma wrapperAlert_frame [simp]:
  "myInterpreter (wrapperAlert t s) = myInterpreter s"
  "runButton_disabled (wrapperAlert t s) = runButton_disabled s"
  by (simp_all add: wrapperAlert_def)

lemma waitForSeconds_frame [simp]:
  "myInterpreter (waitForSeconds i n s) = myInterpreter s"
  "runButton_disabled (waitForSeconds i n s) = runButton_disabled s"
  by (simp_all add: waitForSeconds_def setTimeout_def)

lemma steps_frame:
  "myInterpreter (snd (Interpreter_steps i p s)) = myInterpreter s \<and>
   runButton_disabled (snd (Interpreter_steps i p s)) = runButton_disabled s"
  by (induction i p s rule: Interpreter_steps.induct) simp_all

lemma Interpreter_run_frame:
  "myInterpreter (snd (Interpreter_run i s)) = myInterpreter s"
  "runButton_disabled (snd (Interpreter_run i s)) = runButton_disabled s"
  using steps_frame [of i "todo (interps s ! i)" s]
  by (auto simp: Interpreter_run_def split: prod.splits)

lemma Interpreter_run_other:
  "j \<noteq> i \<Longrightarrow> interps (snd (Interpreter_run i s)) ! j = interps s ! j"
  using steps_interps [of i "todo (interps s ! i)" s]
  by (auto simp: Interpreter_run_def split: prod.splits)

lemma Interpreter_run_length:
  "length (interps (snd (Interpreter_run i s))) = length (interps s)"
  using steps_interps [of i "todo (interps s ! i)" s]
  by (auto simp: Interpreter_run_def split: prod.splits)

lemma checkGoalReached_frame [simp]:
  "myInterpreter (checkGoalReached s) = myInterpreter s"
  "runButton_disabled (checkGoalReached s) = runButton_disabled s"
  "timers (checkGoalReached s) = timers s"
  "interps (checkGoalReached s) = interps s"
  by (simp_all add: checkGoalReached_def alert_def)

theorem handle_kept_after_completion_counterexample:
  "myInterpreter (exec [ClickRun [MoveForward, MoveForward], Fire 1] init_state) = Some 0 \<and>
   todo (interps (exec [ClickRun [MoveForward, MoveForward], Fire 1] init_state) ! 0) = [] \<and>
   alerts (exec [ClickRun [MoveForward, MoveForward], Fire 1] init_state) =
     [''You have reached the goal!''] \<and>
   runButton_disabled (exec [ClickRun [MoveForward, MoveForward], Fire 1] init_state) \<and>
   step (ClickRun [MoveForward, MoveForward])
     (exec [ClickRun [MoveForward, MoveForward], Fire 1] init_state) =
     exec [ClickRun [MoveForward, MoveForward], Fire 1] init_state"
  by (simp add: host_defs)

text \<open>
  C5 (amended). When the evaluator referenced by the handle reports no more work, \<open>runner\<close>
  does the completion check once, on the state the evaluator left, and schedules nothing
  more. It does not release the handle: the handle and the run button stay as they were.
  \<open>resetState\<close> releases the handle and enables the button, after which a new run can start.
\<close>

theorem completion_keeps_handle:
  assumes "myInterpreter s = Some i" and "Interpreter_run i s = (False, s')"
  shows "runner s = checkGoalReached s' \<and>
    timers (runner s) = timers s' \<and>
    myInterpreter (runner s) = Some i \<and>
    runButton_disabled (runner s) = runButton_disabled s \<and>
    myInterpreter (resetState (runner s)) = None \<and>
    \<not> runButton_disabled (resetState (runner s))"
proof -
  from assms have r: "runner s = checkGoalReached s'"
    by (simp add: runner_def)
  from assms(2) Interpreter_run_frame [of i s]
  have "myInterpreter s' = myInterpreter s" "runButton_disabled s' = runButton_disabled s"
    by simp_all
  with r assms(1) show ?thesis by simp
qed

theorem completion_keeps_handle_witness:
  "myInterpreter (exec [ClickRun [MoveForward, WaitForSeconds 1, MoveForward], Fire 1, Fire 2] init_state) = Some 0 \<and>
   fst (Interpreter_run 0
     (exec [ClickRun [MoveForward, WaitForSeconds 1, MoveForward], Fire 1, Fire 2] init_state)) = False \<and>
   runner (exec [ClickRun [MoveForward, WaitForSeconds 1, MoveForward], Fire 1, Fire 2] init_state) =
     checkGoalReached (snd (Interpreter_run 0
       (exec [ClickRun [MoveForward, WaitForSeconds 1, MoveForward], Fire 1, Fire 2] init_state))) \<and>
   myInterpreter (runner
     (exec [ClickRun [MoveForward, WaitForSeconds 1, MoveForward], Fire 1, Fire 2] init_state)) = Some 0"
proof -
  let ?s = "exec [ClickRun [MoveForward, WaitForSeconds 1, MoveForward], Fire 1, Fire 2] init_state"
  have a: "myInterpreter ?s = Some 0" by (simp add: host_defs)
  have b: "fst (Interpreter_run 0 ?s) = False" by (simp add: host_defs)
  then have c: "Interpreter_run 0 ?s = (False, snd (Interpreter_run 0 ?s))"
    by (metis prod.collapse)
  from completion_keeps_handle [OF a c] a b show ?thesis by blast
qed

subsection \<open>C6: one active evaluator\<close>

lemma runner_interps:
  "interps (runner s) =
     (case myInterpreter s of None \<Rightarrow> interps s | Some i \<Rightarrow> interps (snd (Interpreter_run i s)))"
  by (simp add: runner_def setTimeout_def split: option.splits prod.splits)

lemma runner_other:
  "myInterpreter s \<noteq> Some j \<Longrightarrow> interps (runner s) ! j = interps s ! j"
  by (cases "myInterpreter s") (simp_all add: runner_interps Interpreter_run_other)

lemma begin_execution_other:
  "j < length (interps s) \<Longrightarrow> interps (begin_execution p s) ! j = interps s ! j"
  by (simp add: begin_execution_def new_Interpreter_def runner_other nth_append)

lemma resume_todo:
  "todo (interps (resume i s) ! j) = todo (interps s ! j)"
  by (cases "i = j") (simp_all add: resume_def)

lemma runCode_interps [simp]: "interps (runCode p s) = interps s"
  by (simp add: runCode_eq)

lemma other_evaluators_frozen:
  assumes "j < length (interps s)" and "myInterpreter s \<noteq> Some j"
  shows "todo (interps (step e s) ! j) = todo (interps s ! j)"
proof (cases e)
  case (ClickRun p)
  then show ?thesis by simp
next
  case ClickReset
  then show ?thesis by simp
next
  case (Fire t)
  show ?thesis
  proof (cases "find (\<lambda>e. fst e = t) (timers s)")
    case None
    with Fire show ?thesis by (simp add: fire_def)
  next
    case (Some e')
    let ?s1 = "clearTimeout t s"
    have s1: "interps ?s1 = interps s" "myInterpreter ?s1 = myInterpreter s"
      by (simp_all add: clearTimeout_def)
    have "todo (interps (call_back (snd (snd e')) ?s1) ! j) = todo (interps ?s1 ! j)"
    proof (cases "snd (snd e')")
      case (StartRun p)
      with assms s1 show ?thesis by (simp add: begin_execution_other)
    next
      case Runner
      with assms s1 show ?thesis by (simp add: runner_other)
    next
      case (WaitDone i)
      then show ?thesis by (simp add: resume_todo)
    qed
    with Fire Some s1 show ?thesis by (simp add: fire_def)
  qed
qed

text \<open>
  C6. At most one evaluator is active: two run clicks in succession have the effect of the
  first alone, and whenever an event (a click or a timeout) makes an evaluator advance in
  its program, that evaluator is the one the single handle \<open>myInterpreter\<close> refers to.
\<close>

theorem one_active_evaluator:
  "step (ClickRun q) (step (ClickRun p) s) = step (ClickRun p) s \<and>
   (j < length (interps s) \<and> todo (interps (step e s) ! j) \<noteq> todo (interps s ! j)
      \<longrightarrow> myInterpreter s = Some j)"
  using other_evaluators_frozen [of j s e] by (auto simp: runCode_eq)

theorem one_active_evaluator_witness:
  "0 < length (interps (exec [ClickRun [MoveForward, WaitForSeconds 1, MoveForward], Fire 1, Fire 2] init_state)) \<and>
   todo (interps (step (Fire 3)
     (exec [ClickRun [MoveForward, WaitForSeconds 1, MoveForward], Fire 1, Fire 2] init_state)) ! 0) \<noteq>
   todo (interps
     (exec [ClickRun [MoveForward, WaitForSeconds 1, MoveForward], Fire 1, Fire 2] init_state) ! 0) \<and>
   myInterpreter (exec [ClickRun [MoveForward, WaitForSeconds 1, MoveForward], Fire 1, Fire 2] init_state) = Some 0"
proof -
  let ?s = "exec [ClickRun [MoveForward, WaitForSeconds 1, MoveForward], Fire 1, Fire 2] init_state"
  have a: "0 < length (interps ?s)" by (simp add: host_defs)
  have b: "todo (interps (step (Fire 3) ?s) ! 0) \<noteq> todo (interps ?s ! 0)" by (simp add: host_defs)
  from one_active_evaluator [of "[]" "[]" ?s 0 "Fire 3"] a b show ?thesis by blast
qed

subsection \<open>C7: a cancelled run and the next run\<close>

text \<open>
  C7. A run is requested, cancelled by reset before its start timeout has fired, and a second
  run is requested. No timeout identifier of the start is kept, so reset does not clear it:
  the cancelled program runs when timeout 1 fires, and the second run, whose start is still
  pending as timeout 2, begins at \<open>(0,1)\<close> and reports the goal with a single move.
\<close>

theorem stale_start_runs_cancelled_program:
  "current_state (exec [ClickRun [MoveForward], ClickReset, ClickRun [MoveForward], Fire 1] init_state) =
     \<lparr>pos_x = 0, pos_y = 1\<rparr> \<and>
   timers (exec [ClickRun [MoveForward], ClickReset, ClickRun [MoveForward], Fire 1] init_state) =
     [(2, 1, StartRun [MoveForward])] \<and>
   current_state
     (exec [ClickRun [MoveForward], ClickReset, ClickRun [MoveForward], Fire 1, Fire 2] init_state) =
     GOAL_STATE \<and>
   alerts
     (exec [ClickRun [MoveForward], ClickReset, ClickRun [MoveForward], Fire 1, Fire 2] init_state) =
     [''You have not reached the goal. Please try again.'', ''You have reached the goal!'']"
  by (simp add: host_defs)

subsection \<open>C8: the state in which a run begins\<close>

lemma fresh_ids_setTimeout: "fresh_ids s \<Longrightarrow> fresh_ids (snd (setTimeout cb ms s))"
  by (auto simp: fresh_ids_def setTimeout_def list_all_iff)

lemma fresh_ids_clearTimeout: "fresh_ids s \<Longrightarrow> fresh_ids (clearTimeout t s)"
  by (auto simp: fresh_ids_def clearTimeout_def list_all_iff)

lemma fresh_ids_moveForward: "fresh_ids (moveForward s) = fresh_ids s"
  by (simp add: fresh_ids_def moveForward_def moveImage_def alert_def Let_def)

lemma fresh_ids_wrapperAlert: "fresh_ids (wrapperAlert t s) = fresh_ids s"
  by (simp add: fresh_ids_def wrapperAlert_def)

lemma fresh_ids_checkGoalReached: "fresh_ids (checkGoalReached s) = fresh_ids s"
  by (simp add: fresh_ids_def checkGoalReached_def alert_def)

lemma fresh_ids_steps: "fresh_ids s \<Longrightarrow> fresh_ids (snd (Interpreter_steps i p s))"
proof (induction i p s rule: Interpreter_steps.induct)
  case (4 i n cs s)
  then show ?case by (simp add: waitForSeconds_def fresh_ids_setTimeout)
qed (simp_all add: fresh_ids_moveForward fresh_ids_wrapperAlert)

lemma fresh_ids_Interpreter_run:
  assumes "fresh_ids s"
  shows "fresh_ids (snd (Interpreter_run i s))"
  using assms fresh_ids_steps [OF assms, of i "todo (interps s ! i)"]
  by (auto simp: Interpreter_run_def fresh_ids_def split: prod.splits)

lemma fresh_ids_runner:
  assumes "fresh_ids s"
  shows "fresh_ids (runner s)"
proof (cases "myInterpreter s")
  case None
  with assms show ?thesis by (simp add: runner_def)
next
  case (Some i)
  obtain h s' where r: "Interpreter_run i s = (h, s')" by (cases "Interpreter_run i s")
  with fresh_ids_Interpreter_run [OF assms, of i] have g: "fresh_ids s'" by simp
  show ?thesis
  proof (cases h)
    case True
    from g have "fresh_ids ((snd (setTimeout Runner 10 s'))\<lparr>runnerPid := fst (setTimeout Runner 10 s')\<rparr>)"
      by (auto simp: fresh_ids_def setTimeout_def list_all_iff)
    with Some r True show ?thesis by (simp add: runner_def split_beta)
  next
    case False
    with Some r g show ?thesis by (simp add: runner_def fresh_ids_checkGoalReached)
  qed
qed

lemma fresh_ids_begin_execution:
  assumes "fresh_ids s"
  shows "fresh_ids (begin_execution p s)"
proof -
  from assms have "fresh_ids (s\<lparr>interps := interps s @ [\<lparr>todo = p, paused = False\<rparr>],
      myInterpreter := Some (length (interps s))\<rparr>)"
    by (simp add: fresh_ids_def)
  from fresh_ids_runner [OF this] show ?thesis
    by (simp add: begin_execution_def new_Interpreter_def)
qed

lemma fresh_ids_resetState: "fresh_ids s \<Longrightarrow> fresh_ids (resetState s)"
  by (auto simp: fresh_ids_def list_all_iff)

lemma fresh_ids_runCode: "fresh_ids s \<Longrightarrow> fresh_ids (runCode p s)"
  by (auto simp: fresh_ids_def runCode_eq list_all_iff)

lemma fresh_ids_step:
  assumes "fresh_ids s"
  shows "fresh_ids (step e s)"
proof (cases e)
  case (ClickRun p)
  with assms show ?thesis by (simp add: fresh_ids_runCode)
next
  case ClickReset
  with assms show ?thesis by (simp add: fresh_ids_resetState)
next
  case (Fire t)
  show ?thesis
  proof (cases "find (\<lambda>e. fst e = t) (timers s)")
    case None
    with Fire assms show ?thesis by (simp add: fire_def)
  next
    case (Some e')
    note s1 = fresh_ids_clearTimeout [OF assms, of t]
    have "fresh_ids (call_back (snd (snd e')) (clearTimeout t s))"
    proof (cases "snd (snd e')")
      case (StartRun p)
      with fresh_ids_begin_execution [OF s1] show ?thesis by simp
    next
      case Runner
      with fresh_ids_runner [OF s1] show ?thesis by simp
    next
      case (WaitDone i)
      with s1 show ?thesis by (simp add: resume_def fresh_ids_def)
    qed
    with Fire Some show ?thesis by (simp add: fire_def)
  qed
qed

lemma fresh_ids_exec: "fresh_ids s \<Longrightarrow> fresh_ids (exec es s)"
  by (induction es arbitrary: s) (simp_all add: fresh_ids_step)

lemma fresh_ids_init: "fresh_ids init_state"
  by (simp add: fresh_ids_def host_defs)

lemma fresh_ids_reachable: "fresh_ids (exec es init_state)"
  by (rule fresh_ids_exec [OF fresh_ids_init])


text \<open>
  C8. A run of three moves is requested and reset before its start timeout has fired, and a
  run of two moves is requested. \<open>runCode\<close> leaves the start of the first request pending
  beside its own. The first program runs when timeout 1 fires and overshoots; the second
  run begins, when timeout 2 fires, at \<open>(0,2)\<close> with the error flag set, so its two moves do
  nothing and no goal message is shown.
\<close>

theorem run_begins_in_state_of_stale_run:
  "timers
     (exec [ClickRun [MoveForward, MoveForward, MoveForward], ClickReset,
            ClickRun [MoveForward, MoveForward]] init_state) =
     [(1, 1, StartRun [MoveForward, MoveForward, MoveForward]),
      (2, 1, StartRun [MoveForward, MoveForward])] \<and>
   current_state
     (exec [ClickRun [MoveForward, MoveForward, MoveForward], ClickReset,
            ClickRun [MoveForward, MoveForward], Fire 1] init_state) = \<lparr>pos_x = 0, pos_y = 2\<rparr> \<and>
   inErrorState
     (exec [ClickRun [MoveForward, MoveForward, MoveForward], ClickReset,
            ClickRun [MoveForward, MoveForward], Fire 1] init_state) \<and>
   timers
     (exec [ClickRun [MoveForward, MoveForward, MoveForward], ClickReset,
            ClickRun [MoveForward, MoveForward], Fire 1] init_state) =
     [(2, 1, StartRun [MoveForward, MoveForward])] \<and>
   inErrorState
     (exec [ClickRun [MoveForward, MoveForward, MoveForward], ClickReset,
            ClickRun [MoveForward, MoveForward], Fire 1, Fire 2] init_state) \<and>
   alerts
     (exec [ClickRun [MoveForward, MoveForward, MoveForward], ClickReset,
            ClickRun [MoveForward, MoveForward], Fire 1, Fire 2] init_state) =
     [''uh oh! You have gone too far! Please try again.'']"
  by (simp add: host_defs)

subsection \<open>C9 and C10: the position stays on the grid\<close>

lemma moveForward_pos_x: "pos_x (current_state (moveForward s)) = pos_x (current_state s)"
  by (simp add: moveForward_def moveImage_def alert_def Let_def)

lemma moveForward_in_grid: "in_grid s \<Longrightarrow> in_grid (moveForward s)"
  by (simp add: in_grid_def moveForward_def moveImage_def alert_def Let_def)

lemma on_grid_START: "on_grid START_STATE"
  by (simp add: on_grid_def START_STATE_def COLS_def)

lemma moveForward_on_grid:
  "on_grid (current_state s) \<Longrightarrow> on_grid (current_state (moveForward s))"
  using moveForward_in_grid [of s] by (simp add: on_grid_def in_grid_def moveForward_pos_x)

lemma steps_on_grid:
  "on_grid (current_state s) \<Longrightarrow> on_grid (current_state (snd (Interpreter_steps i p s)))"
proof (induction i p s rule: Interpreter_steps.induct)
  case (2 i cs s)
  then show ?case by (simp add: moveForward_on_grid)
next
  case (4 i n cs s)
  then show ?case by (simp add: waitForSeconds_def setTimeout_def)
qed simp_all

lemma Interpreter_run_on_grid:
  assumes "on_grid (current_state s)"
  shows "on_grid (current_state (snd (Interpreter_run i s)))"
  using assms steps_on_grid [OF assms, of i "todo (interps s ! i)"]
  by (auto simp: Interpreter_run_def split: prod.splits)

lemma runner_on_grid:
  assumes "on_grid (current_state s)"
  shows "on_grid (current_state (runner s))"
proof (cases "myInterpreter s")
  case None
  with assms show ?thesis by (simp add: runner_def)
next
  case (Some i)
  with Interpreter_run_on_grid [OF assms, of i] show ?thesis
    by (auto simp: runner_def setTimeout_def split: prod.splits)
qed

lemma begin_execution_on_grid:
  assumes "on_grid (current_state s)"
  shows "on_grid (current_state (begin_execution p s))"
  using assms by (simp add: begin_execution_def new_Interpreter_def runner_on_grid)

lemma step_on_grid:
  assumes "on_grid (current_state s)"
  shows "on_grid (current_state (step e s))"
proof (cases e)
  case (ClickRun p)
  with assms show ?thesis by (simp add: on_grid_START runCode_eq)
next
  case ClickReset
  then show ?thesis by (simp add: on_grid_START)
next
  case (Fire t)
  show ?thesis
  proof (cases "find (\<lambda>e. fst e = t) (timers s)")
    case None
    with Fire assms show ?thesis by (simp add: fire_def)
  next
    case (Some e')
    have s1: "on_grid (current_state (clearTimeout t s))"
      using assms by (simp add: clearTimeout_def)
    have "on_grid (current_state (call_back (snd (snd e')) (clearTimeout t s)))"
    proof (cases "snd (snd e')")
      case (StartRun p)
      with begin_execution_on_grid [OF s1] show ?thesis by simp
    next
      case Runner
      with runner_on_grid [OF s1] show ?thesis by simp
    next
      case (WaitDone i)
      with s1 show ?thesis by (simp add: resume_def)
    qed
    with Fire Some show ?thesis by (simp add: fire_def)
  qed
qed

lemma exec_on_grid: "on_grid (current_state s) \<Longrightarrow> on_grid (current_state (exec es s))"
  by (induction es arbitrary: s) (simp_all add: step_on_grid)

lemma init_on_grid: "on_grid (current_state init_state)"
  by (simp add: init_state_def on_grid_START)

text \<open>
  C9. \<open>moveForward\<close> leaves the x-coordinate as it is, in every state, and in every state
  reached from the loaded page by clicks and timeouts \<open>x\<close> equals \<open>START_STATE.x\<close>.
\<close>

theorem x_never_changes:
  "pos_x (current_state (moveForward s)) = pos_x (current_state s) \<and>
   pos_x (current_state (exec es init_state)) = pos_x START_STATE"
  using exec_on_grid [OF init_on_grid, of es]
  by (simp add: moveForward_pos_x on_grid_def)

text \<open>
  C10. \<open>0 \<le> y \<le> COLS - 1\<close> holds when the page has loaded, holds after \<open>resetState\<close>, is
  preserved by \<open>moveForward\<close> (with the error flag set or clear), and holds in every state
  reached by clicks and timeouts.
\<close>

theorem y_stays_in_grid:
  "in_grid init_state \<and> in_grid (resetState s) \<and> (in_grid s \<longrightarrow> in_grid (moveForward s)) \<and>
   in_grid (exec es init_state)"
proof -
  have "in_grid init_state"
    using init_on_grid by (simp add: on_grid_def in_grid_def)
  moreover have "in_grid (resetState s)"
    using on_grid_START by (simp add: on_grid_def in_grid_def)
  moreover have "in_grid (exec es init_state)"
    using exec_on_grid [OF init_on_grid, of es] by (simp add: on_grid_def in_grid_def)
  ultimately show ?thesis
    using moveForward_in_grid [of s] by blast
qed

theorem y_stays_in_grid_witness:
  "in_grid (moveForward (moveForward (moveForward init_state))) \<and>
   inErrorState (moveForward (moveForward (moveForward init_state))) \<and>
   in_grid (moveForward (moveForward (moveForward (moveForward init_state))))"
proof -
  let ?s = "moveForward (moveForward (moveForward init_state))"
  have a: "in_grid ?s" by (simp add: in_grid_def host_defs)
  have b: "inErrorState ?s" by (simp add: host_defs)
  from y_stays_in_grid [of ?s "[]"] a b show ?thesis by blast
qed

subsection \<open>C1: k forward moves\<close>

lemma on_grid_cell_exists: "on_grid p \<Longrightarrow> cell_exists p"
  by (simp add: on_grid_def cell_exists_def START_STATE_def ROWS_def COLS_def)

lemma cell_exists_reachable: "cell_exists (current_state (exec es init_state))"
  by (rule on_grid_cell_exists [OF exec_on_grid [OF init_on_grid]])

lemma moveForward_timers [simp]:
  "next_timer (moveForward s) = next_timer s"
  "runnerPid (moveForward s) = runnerPid s"
  by (simp_all add: moveForward_def moveImage_def alert_def Let_def)

lemma wrapperAlert_timers [simp]:
  "timers (wrapperAlert t s) = timers s"
  "next_timer (wrapperAlert t s) = next_timer s"
  "runnerPid (wrapperAlert t s) = runnerPid s"
  by (simp_all add: wrapperAlert_def)





lemma on_course_frame:
  "current_state s' = current_state s \<Longrightarrow> inErrorState s' = inErrorState s \<Longrightarrow>
   on_course Y s' cs = on_course Y s cs"
  by (simp add: on_course_def)




















end
